theory Spec2Isabelle
  imports Complex_Main
begin

section \<open>Numbers and strings of the script\<close>

text \<open>
  The script computes with JavaScript numbers. Finite values are modelled by \<open>real\<close>
  (rounding of the binary representation and the sign of zero are left out); the values a
  division can produce beyond them are explicit. Integer-valued numbers are \<open>int\<close>.
\<close>

datatype jsnum = Fin real | PInf | NInf | NaN

text \<open>\<open>a / b\<close> on finite numbers: a zero divisor gives \<open>NaN\<close> or an infinity.\<close>

definition js_div :: "real \<Rightarrow> real \<Rightarrow> jsnum" where
  "js_div a b =
     (if b = 0 then (if a = 0 then NaN else if 0 < a then PInf else NInf)
      else Fin (a / b))"

text \<open>\<open>x * 100\<close>.\<close>

fun js_times100 :: "jsnum \<Rightarrow> jsnum" where
  "js_times100 (Fin r) = Fin (r * 100)"
| "js_times100 PInf = PInf"
| "js_times100 NInf = NInf"
| "js_times100 NaN = NaN"

text \<open>\<open>x || 0\<close> on a number: \<open>NaN\<close> and zero are falsy, everything else is kept.\<close>

fun js_or_zero :: "jsnum \<Rightarrow> jsnum" where
  "js_or_zero (Fin r) = (if r = 0 then Fin 0 else Fin r)"
| "js_or_zero PInf = PInf"
| "js_or_zero NInf = NInf"
| "js_or_zero NaN = Fin 0"


text \<open>\<open>Math.round\<close> on a finite number: the nearest integer, halves rounded up.\<close>

definition js_round :: "real \<Rightarrow> int" where
  "js_round x = \<lfloor>x + 1 / 2\<rfloor>"

text \<open>\<open>n || 0\<close> on an integer: only zero is falsy.\<close>

definition or_zero :: "int \<Rightarrow> int" where
  "or_zero n = (if n = 0 then 0 else n)"

text \<open>
  Conversion of an integer to a string, as \<open>+\<close> with a string operand does it: decimal
  digits, a minus sign for a negative number (the script's rendering for integers below
  \<open>10^21\<close> in absolute value).
\<close>

definition digit_char :: "nat \<Rightarrow> char" where
  "digit_char d = ''0123456789'' ! d"

fun nat_to_dec :: "nat \<Rightarrow> string" where
  "nat_to_dec n =
     (if n < 10 then [digit_char n] else nat_to_dec (n div 10) @ [digit_char (n mod 10)])"

declare nat_to_dec.simps [simp del]

definition int_to_dec :: "int \<Rightarrow> string" where
  "int_to_dec i = (if i < 0 then ''-'' @ nat_to_dec (nat (- i)) else nat_to_dec (nat i))"

text \<open>\<open>Player.prototype.formatTime\<close>, on the integers that \<open>Math.round\<close> hands it.\<close>

definition formatTime :: "int \<Rightarrow> string" where
  "formatTime secs =
     (let minutes = or_zero \<lfloor>real_of_int secs / 60\<rfloor>;
          seconds = or_zero (secs - minutes * 60)
      in int_to_dec minutes @ '':'' @ (if seconds < 10 then ''0'' else '''') @ int_to_dec seconds)"

section \<open>Playback handles\<close>

text \<open>
  Modelled from the spec: the playback handle (\<open>Howl\<close>) and the provider (\<open>Howler\<close>)
  come from an external audio library that is not part of the repository. The spec gives
  the contract: a handle exposes play, pause, stop, seek, duration, playing and state;
  its load state is unloaded, loading or loaded; \<open>stop\<close> leaves a stopped handle that is
  not destroyed. The load state is what \<open>state()\<close> reports; the transport records the
  last of play, pause and stop asked of the handle; \<open>playing()\<close> reports true only when
  the handle was asked to play and is loaded. Stopping a handle does not change its load
  state: a handle stopped while it loads is still loading.
\<close>

datatype load_state = Unloaded | Loading | Loaded

datatype transport = Stopped | Paused | Playing

record howl =
  hid :: nat
  hstate :: load_state
  htransport :: transport
  hposition :: "real option"
  hduration :: real

text \<open>\<open>new Howl(...)\<close>: the handle with number \<open>k\<close>, nothing loaded, no position yet.\<close>

definition new_howl :: "nat \<Rightarrow> howl" where
  "new_howl k =
     \<lparr>hid = k, hstate = Unloaded, htransport = Stopped, hposition = None, hduration = 0\<rparr>"

definition howl_play :: "howl \<Rightarrow> howl" where
  "howl_play h =
     h\<lparr>hstate := (if hstate h = Unloaded then Loading else hstate h), htransport := Playing\<rparr>"

definition howl_pause :: "howl \<Rightarrow> howl" where
  "howl_pause h = h\<lparr>htransport := (if htransport h = Playing then Paused else htransport h)\<rparr>"

definition howl_stop :: "howl \<Rightarrow> howl" where
  "howl_stop h = h\<lparr>htransport := Stopped\<rparr>"

definition howl_seek :: "real \<Rightarrow> howl \<Rightarrow> howl" where
  "howl_seek pos h = h\<lparr>hposition := Some pos\<rparr>"

definition howl_playing :: "howl \<Rightarrow> bool" where
  "howl_playing h = (htransport h = Playing \<and> hstate h = Loaded)"


text \<open>The calls the script makes on the library and on the browser, in order.\<close>

datatype call =
    HowlNew nat "string list"
  | HowlPlay nat
  | HowlPause nat
  | HowlStop nat
  | HowlSeek nat real
  | HowlerVolume real
  | RequestFrame

section \<open>The player and the page\<close>

record track =
  title :: string
  number :: string
  model :: string
  designer :: string
  artist :: string
  note_field :: string
  file_name :: string
  howl :: "howl option"

text \<open>
  The state of the page: the two fields of the \<open>Player\<close> object, the properties of the
  DOM elements the script writes (an inline style that was never set is the empty string,
  a width or offset that was never set is \<open>None\<close>), the viewport width, the global volume
  of the library, the number of handles constructed and the calls made so far.
\<close>

record player =
  playlist :: "track list"
  index :: int
  track_html :: string
  timer_html :: string
  duration_html :: string
  list_html :: "string list"
  progress_width :: "jsnum option"
  wave_display :: string
  bar_display :: string
  playBtn_display :: string
  pauseBtn_display :: string
  loading_display :: string
  barFull_width :: "real option"
  sliderBtn_left :: "real option"
  info_hidden :: bool
  installation_shown :: bool
  number_html :: string
  model_html :: string
  designer_html :: string
  artist_html :: string
  note_html :: string
  innerWidth :: real
  howler_volume :: real
  howl_count :: nat
  trace :: "call list"

datatype error = TypeError

text \<open>
  An operation either returns or throws. A throw keeps the state reached at that point:
  what the script wrote before the exception stays written.
\<close>

datatype outcome = Done player | Raised error player

fun state_of :: "outcome \<Rightarrow> player" where
  "state_of (Done s) = s"
| "state_of (Raised e s) = s"

fun completes :: "outcome \<Rightarrow> bool" where
  "completes (Done s) = True"
| "completes (Raised e s) = False"

text \<open>\<open>playlist[index]\<close>: \<open>undefined\<close> outside the array.\<close>

definition lookup_track :: "track list \<Rightarrow> int \<Rightarrow> track option" where
  "lookup_track pl i = (if 0 \<le> i \<and> i < int (length pl) then Some (pl ! nat i) else None)"

text \<open>\<open>playlist[index].howl\<close> where the entry exists.\<close>

definition handle_at :: "player \<Rightarrow> nat \<Rightarrow> howl option" where
  "handle_at s i = (if i < length (playlist s) then howl (playlist s ! i) else None)"

definition set_howl :: "nat \<Rightarrow> howl \<Rightarrow> player \<Rightarrow> player" where
  "set_howl i h s = s\<lparr>playlist := (playlist s)[i := (playlist s ! i)\<lparr>howl := Some h\<rparr>]\<rparr>"

definition log_call :: "call \<Rightarrow> player \<Rightarrow> player" where
  "log_call c s = s\<lparr>trace := trace s @ [c]\<rparr>"

text \<open>The constructor \<open>Player(playlist)\<close>, run on the page as it is before the script.\<close>

definition Player :: "track list \<Rightarrow> player \<Rightarrow> player" where
  "Player pl page =
     page\<lparr>playlist := pl, index := 0,
          track_html := '''', timer_html := '''', duration_html := '''',
          list_html := list_html page @ map title pl\<rparr>"

text \<open>A page with no inline styles, no handle constructed and no call made.\<close>

definition blank_page :: "real \<Rightarrow> player" where
  "blank_page w =
     \<lparr>playlist = [], index = 0, track_html = '''', timer_html = '''', duration_html = '''',
      list_html = [], progress_width = None, wave_display = '''', bar_display = '''',
      playBtn_display = '''', pauseBtn_display = '''', loading_display = '''',
      barFull_width = None, sliderBtn_left = None, info_hidden = False,
      installation_shown = False, number_html = '''', model_html = '''',
      designer_html = '''', artist_html = '''', note_html = '''',
      innerWidth = w, howler_volume = 1, howl_count = 0, trace = []\<rparr>"

text \<open>The two sources handed to \<open>new Howl\<close>.\<close>

definition howl_src :: "track \<Rightarrow> string list" where
  "howl_src data = [''./audio/'' @ file_name data @ ''.webm'', ''./audio/'' @ file_name data @ ''.mp3'']"

text \<open>
  \<open>Player.prototype.play\<close>. The argument is \<open>Some n\<close> for a number and \<open>None\<close> for
  anything else (\<open>typeof index === 'number'\<close> fails). Reading \<open>data.howl\<close> of an entry
  outside the playlist throws.
\<close>

definition play :: "int option \<Rightarrow> player \<Rightarrow> outcome" where
  "play arg s =
     (let idx = (case arg of Some n \<Rightarrow> n | None \<Rightarrow> index s) in
      case lookup_track (playlist s) idx of
        None \<Rightarrow> Raised TypeError s
      | Some data \<Rightarrow>
          (let i = nat idx;
               s1 = (case howl data of
                       Some h \<Rightarrow> s
                     | None \<Rightarrow>
                         set_howl i (new_howl (howl_count s))
                           (log_call (HowlNew i (howl_src data))
                              (s\<lparr>howl_count := Suc (howl_count s)\<rparr>)));
               sound = (case howl data of Some h \<Rightarrow> h | None \<Rightarrow> new_howl (howl_count s));
               sound' = howl_play sound;
               s2 = set_howl i sound' (log_call (HowlPlay i) s1);
               s3 = s2\<lparr>track_html := title data,
                       info_hidden := True,
                       installation_shown := True,
                       number_html := (if number data \<noteq> '''' then ''NUMBER '' @ number data else ''''),
                       model_html := (if model data \<noteq> '''' then model data else ''''),
                       designer_html := (if designer data \<noteq> '''' then designer data else ''''),
                       artist_html := (if artist data \<noteq> '''' then artist data else ''''),
                       note_html := (if note_field data \<noteq> '''' then note_field data else '''')\<rparr>;
               s4 = (if hstate sound' = Loaded
                     then s3\<lparr>playBtn_display := ''none'', pauseBtn_display := ''block''\<rparr>
                     else s3\<lparr>loading_display := ''block'', playBtn_display := ''none'',
                             pauseBtn_display := ''none''\<rparr>)
           in Done (s4\<lparr>index := idx\<rparr>)))"

text \<open>\<open>Player.prototype.pause\<close>: calling \<open>pause\<close> on an absent handle throws.\<close>

definition pause :: "player \<Rightarrow> outcome" where
  "pause s =
     (case lookup_track (playlist s) (index s) of
        None \<Rightarrow> Raised TypeError s
      | Some data \<Rightarrow>
          (case howl data of
             None \<Rightarrow> Raised TypeError s
           | Some sound \<Rightarrow>
               (let i = nat (index s);
                    s1 = set_howl i (howl_pause sound) (log_call (HowlPause i) s)
                in Done (s1\<lparr>playBtn_display := ''block'', pauseBtn_display := ''none''\<rparr>))))"

text \<open>\<open>Player.prototype.skipTo\<close>.\<close>

definition skipTo :: "int \<Rightarrow> player \<Rightarrow> outcome" where
  "skipTo idx s =
     (case lookup_track (playlist s) (index s) of
        None \<Rightarrow> Raised TypeError s
      | Some cur \<Rightarrow>
          (let i = nat (index s);
               s1 = (case howl cur of
                       Some h \<Rightarrow> set_howl i (howl_stop h) (log_call (HowlStop i) s)
                     | None \<Rightarrow> s);
               s2 = s1\<lparr>progress_width := Some (Fin 0)\<rparr>
           in play (Some idx) s2))"

text \<open>\<open>Player.prototype.skip\<close>: the direction is compared with \<open>'prev'\<close> only.\<close>

definition skip :: "string \<Rightarrow> player \<Rightarrow> outcome" where
  "skip direction s =
     (let idx = (if direction = ''prev''
                 then (let j = index s - 1 in
                       if j < 0 then int (length (playlist s)) - 1 else j)
                 else (let j = index s + 1 in
                       if j \<ge> int (length (playlist s)) then 0 else j))
      in skipTo idx s)"

text \<open>\<open>Player.prototype.volume\<close>.\<close>

definition volume :: "real \<Rightarrow> player \<Rightarrow> player" where
  "volume val s =
     (let s1 = (log_call (HowlerVolume val) s)\<lparr>howler_volume := val\<rparr>;
          barWidth = (val * 90) / 100
      in s1\<lparr>barFull_width := Some (barWidth * 100),
             sliderBtn_left := Some (innerWidth s * barWidth + innerWidth s * 0.05 - 25)\<rparr>)"

text \<open>\<open>Player.prototype.seek\<close>: calling \<open>playing\<close> on an absent handle throws.\<close>

definition seek :: "real \<Rightarrow> player \<Rightarrow> outcome" where
  "seek per s =
     (case lookup_track (playlist s) (index s) of
        None \<Rightarrow> Raised TypeError s
      | Some data \<Rightarrow>
          (case howl data of
             None \<Rightarrow> Raised TypeError s
           | Some sound \<Rightarrow>
               (if howl_playing sound
                then (let i = nat (index s); pos = hduration sound * per
                      in Done (set_howl i (howl_seek pos sound) (log_call (HowlSeek i pos) s)))
                else Done s)))"

text \<open>\<open>Player.prototype.step\<close>.\<close>

definition step :: "player \<Rightarrow> outcome" where
  "step s =
     (case lookup_track (playlist s) (index s) of
        None \<Rightarrow> Raised TypeError s
      | Some data \<Rightarrow>
          (case howl data of
             None \<Rightarrow> Raised TypeError s
           | Some sound \<Rightarrow>
               (let seek = (case hposition sound of
                              Some p \<Rightarrow> (if p = 0 then 0 else p)
                            | None \<Rightarrow> 0);
                    s1 = s\<lparr>timer_html := formatTime (js_round seek),
                           progress_width :=
                             Some (js_or_zero (js_times100 (js_div seek (hduration sound))))\<rparr>
                in Done (if howl_playing sound then log_call RequestFrame s1 else s1))))"

section \<open>Callbacks of a handle\<close>

text \<open>
  The callbacks that \<open>play\<close> registers on the handle of track \<open>i\<close>. They close over the
  player and over that handle; a track without a handle has none.
\<close>

definition on_play :: "nat \<Rightarrow> player \<Rightarrow> player" where
  "on_play i s =
     (case handle_at s i of
        None \<Rightarrow> s
      | Some sound \<Rightarrow>
          (log_call RequestFrame
             (s\<lparr>duration_html := formatTime (js_round (hduration sound))\<rparr>))
            \<lparr>wave_display := ''block'', bar_display := ''none'', pauseBtn_display := ''block''\<rparr>)"

definition on_load :: "player \<Rightarrow> player" where
  "on_load s = s\<lparr>wave_display := ''block'', bar_display := ''none'', loading_display := ''none''\<rparr>"

definition on_end :: "player \<Rightarrow> outcome" where
  "on_end s = skip ''next'' (s\<lparr>wave_display := ''none'', bar_display := ''block''\<rparr>)"

definition on_pause :: "player \<Rightarrow> player" where
  "on_pause s = s\<lparr>wave_display := ''none'', bar_display := ''block''\<rparr>"

definition on_stop :: "player \<Rightarrow> player" where
  "on_stop s = s\<lparr>wave_display := ''none'', bar_display := ''block''\<rparr>"

definition on_seek :: "player \<Rightarrow> player" where
  "on_seek s = log_call RequestFrame s"

text \<open>
  Modelled from the spec: what the external library does to a handle on its own. The
  handle of track \<open>i\<close> finishes loading (its duration becomes known), its position
  advances, or it reaches the end and is no longer playing.
\<close>

definition update_handle :: "nat \<Rightarrow> (howl \<Rightarrow> howl) \<Rightarrow> player \<Rightarrow> player" where
  "update_handle i f s = (case handle_at s i of None \<Rightarrow> s | Some h \<Rightarrow> set_howl i (f h) s)"

definition lib_loaded :: "nat \<Rightarrow> real \<Rightarrow> player \<Rightarrow> player" where
  "lib_loaded i d s = update_handle i (\<lambda>h. h\<lparr>hstate := Loaded, hduration := d\<rparr>) s"

definition lib_progress :: "nat \<Rightarrow> real \<Rightarrow> player \<Rightarrow> player" where
  "lib_progress i p s = update_handle i (\<lambda>h. h\<lparr>hposition := Some p\<rparr>) s"

definition lib_ended :: "nat \<Rightarrow> player \<Rightarrow> player" where
  "lib_ended i s = update_handle i (\<lambda>h. h\<lparr>htransport := Stopped\<rparr>) s"

section \<open>Events\<close>

text \<open>
  What runs the player after start-up: the listeners bound at the end of the script (the
  play, pause, previous and next buttons, a click on playlist entry \<open>i\<close>, which is
  \<open>skipTo\<close> of the entry's own position, a click on the waveform, the volume slider), an
  animation frame running \<open>step\<close>, the callbacks of a handle and the library's own
  transitions. The two panel toggles and the resize handler are left out: they call no
  method of a handle and write neither the playlist nor the index.
\<close>

datatype event =
    ClickPlay
  | ClickPause
  | ClickPrev
  | ClickNext
  | ClickSong nat
  | ClickWaveform real
  | SetVolume real
  | Frame
  | OnPlay nat
  | OnLoad
  | OnEnd
  | OnPause
  | OnStop
  | OnSeek
  | LibLoaded nat real
  | LibProgress nat real
  | LibEnded nat

fun exec :: "event \<Rightarrow> player \<Rightarrow> outcome" where
  "exec ClickPlay s = play None s"
| "exec ClickPause s = pause s"
| "exec ClickPrev s = skip ''prev'' s"
| "exec ClickNext s = skip ''next'' s"
| "exec (ClickSong i) s = (if i < length (playlist s) then skipTo (int i) s else Done s)"
| "exec (ClickWaveform per) s = seek per s"
| "exec (SetVolume val) s = Done (volume val s)"
| "exec Frame s = step s"
| "exec (OnPlay i) s = Done (on_play i s)"
| "exec OnLoad s = Done (on_load s)"
| "exec OnEnd s = on_end s"
| "exec OnPause s = Done (on_pause s)"
| "exec OnStop s = Done (on_stop s)"
| "exec OnSeek s = Done (on_seek s)"
| "exec (LibLoaded i d) s = Done (lib_loaded i d s)"
| "exec (LibProgress i p) s = Done (lib_progress i p s)"
| "exec (LibEnded i) s = Done (lib_ended i s)"

text \<open>
  The states the page can be in: the constructor run on a page where no call was made
  yet, followed by any events. An event that throws leaves the state it reached.
\<close>

inductive reachable :: "track list \<Rightarrow> player \<Rightarrow> bool" for pl :: "track list" where
  start: "trace page = [] \<Longrightarrow> reachable pl (Player pl page)"
| after: "reachable pl s \<Longrightarrow> reachable pl (state_of (exec e s))"

text \<open>A playlist as the script writes it: every \<open>howl\<close> field is \<open>null\<close>.\<close>

definition no_handles :: "track list \<Rightarrow> bool" where
  "no_handles pl = list_all (\<lambda>t. howl t = None) pl"

definition song ::
  "string \<Rightarrow> string \<Rightarrow> string \<Rightarrow> string \<Rightarrow> string \<Rightarrow> string \<Rightarrow> string \<Rightarrow> track" where
  "song t n m d a nt f =
     \<lparr>title = t, number = n, model = m, designer = d, artist = a, note_field = nt, file_name = f,
      howl = None\<rparr>"

text \<open>The playlist of the script (the letter e with grave accent is \<open>CHR 0xE8\<close>).\<close>

definition the_playlist :: "track list" where
  "the_playlist =
    [song ''I'' ''1'' ''Abby Yankle'' ''Julia Liller'' ''Jessica Maples'' '''' ''01 - ND13'',
     song ''II'' ''2'' ''Jalisa Ambrose'' ''A.J. Tompkins'' ''Conz8000'' '''' ''02 - ND18'',
     song ''III'' ''3'' ''N/A'' ''Miranda Pixley'' ''Molly Holmes''
       ''This installation is blank due to life changes for both artist and costumer to where they did not have freedom to create.''
       ''03 - ND08'',
     song ''IV'' ''4'' ''Ellis Jayne'' (''Sun'' @ [CHR 0xE8] @ '' Van Rooyen Phillips'')
       (''Sun'' @ [CHR 0xE8] @ '' Van Rooyen Phillips'') '''' ''04 - ND04'',
     song ''V'' ''5'' ''Rachel Stringfellow'' ''Rachel Stringfellow'' ''Rachel Stringfellow'' ''''
       ''05 - ND03'',
     song ''VI'' ''6'' ''Lillian McKinney'' ''Lillian McKinney'' ''Lucy Gafford'' '''' ''06 - ND07'',
     song ''VII'' ''7'' ''Nicole Decker'' ''Sarah Bohnenstiehl'' ''Dena Kollins'' '''' ''07 - ND02'',
     song ''VIII'' ''8'' ''Laura Scott'' ''Courtney Matthews'' ''Ryan Jetten'' '''' ''08 - ND09'',
     song ''IX'' ''9'' ''Reginald Davis'' ''Antionette Warbington'' ''''
       ''Sol Davis could not be in the show due to work.'' ''09 - ND16'',
     song ''X'' ''10'' ''April Patrick'' ''April Patrick'' ''Artist Name'' '''' ''10 - ND06'',
     song ''XI'' ''11'' ''April Livingston'' ''April Livingston'' ''Amanada Youngblood'' ''''
       ''11 - ND10'',
     song ''XII'' ''12'' ''Stallworth'' ''Stallworth'' ''Brandin Stallworth'' '''' ''12 - ND11'',
     song ''XIII'' ''13'' ''Suzette Callahan'' ''Suzette Callahan'' ''Randy Jennings'' ''''
       ''13 - ND19'',
     song ''XIV'' ''14'' (''Marn'' @ [CHR 0xE8] @ ''e Wiley'') ''Valerie Iliff'' ''Chris Murray'' ''''
       ''14 - ND05'',
     song ''XV'' ''15'' ''Larrah Craig'' ''Laura Compton'' (''Marn'' @ [CHR 0xE8] @ ''e Wiley'') ''''
       ''15 - ND17'',
     song ''XVI'' ''16'' ''McKenzie Wallace'' ''Jessica Price'' ''Mateo'' '''' ''16 - ND01'',
     song ''XVII'' ''17'' ''Emily Howat'' ''Richard McGill-Hamilton'' ''Taylor Shaw'' ''''
       ''17 - ND05'',
     song ''XVIII'' ''18'' ''Debbie Richards'' ''Debbie Richards'' ''Katrina Breland'' ''''
       ''18 - ND15'',
     song ''XIX'' ''19'' ''Sarah Hoeb'' ''Sara Thompson'' ''Sarah Gelsinger Brewer'' ''''
       ''19 - ND17'',
     song ''XX'' ''20'' ''Jessica Price'' ''Jessica Price'' ''Jessica Price'' '''' ''20 - ND12'']"

text \<open>The page after the script's \<open>new Player([...])\<close>, for a viewport of width \<open>w\<close>.\<close>

definition player0 :: "real \<Rightarrow> player" where
  "player0 w = Player the_playlist (blank_page w)"

section \<open>Properties of states\<close>

text \<open>The handle of a track after \<open>play\<close>: the one it had, or handle number \<open>k\<close>, played.\<close>

definition played :: "nat \<Rightarrow> track \<Rightarrow> howl" where
  "played k data = howl_play (case howl data of Some h \<Rightarrow> h | None \<Rightarrow> new_howl k)"

text \<open>\<open>currentIndex\<close> refers to an entry of the playlist.\<close>

definition valid_index :: "player \<Rightarrow> bool" where
  "valid_index s = (0 \<le> index s \<and> index s < int (length (playlist s)))"




text \<open>How many times a handle was constructed for track \<open>i\<close>.\<close>

definition is_new :: "nat \<Rightarrow> call \<Rightarrow> bool" where
  "is_new i c = (case c of HowlNew j srcs \<Rightarrow> j = i | _ \<Rightarrow> False)"

definition constructions :: "player \<Rightarrow> nat \<Rightarrow> nat" where
  "constructions s i = length (filter (is_new i) (trace s))"

text \<open>The handle of the current track, if the index is in the playlist and it has one.\<close>

definition current_handle :: "player \<Rightarrow> howl option" where
  "current_handle s =
     (case lookup_track (playlist s) (index s) of None \<Rightarrow> None | Some data \<Rightarrow> howl data)"

section \<open>Sample states\<close>

text \<open>
  The page of the script in a viewport of width \<open>w\<close> after a click on the play button
  (track 0 is loading), after the library has loaded that track (200 seconds long, now
  playing), and after 50 seconds of playback.
\<close>

definition example_loading :: "real \<Rightarrow> player" where
  "example_loading w = state_of (exec ClickPlay (player0 w))"

definition example_playing :: "real \<Rightarrow> player" where
  "example_playing w = state_of (exec (LibLoaded 0 200) (example_loading w))"


text \<open>
  A step is quiet when it keeps the length of the playlist, the index and the number of
  handles constructed, constructs no handle, and leaves every handle in place, those of
  the other tracks still stopped if they were.
\<close>

definition quiet :: "player \<Rightarrow> player \<Rightarrow> bool" where
  "quiet s s' =
     (length (playlist s') = length (playlist s) \<and> index s' = index s
      \<and> howl_count s' = howl_count s
      \<and> (\<forall>i. constructions s' i = constructions s i)
      \<and> (\<forall>j. case handle_at s j of
                 None \<Rightarrow> handle_at s' j = None
               | Some h \<Rightarrow>
                   (\<exists>h'. handle_at s' j = Some h' \<and> hid h' = hid h
                      \<and> (int j \<noteq> index s \<and> htransport h = Stopped \<longrightarrow> htransport h' = Stopped))))"

text \<open>
  What holds of the handles in every state of a page started on playlist \<open>pl\<close>: the
  playlist keeps its length, a track has a handle exactly when one construction was made
  for it, and the handles are numbered below the count of constructions.
\<close>

definition handles_ok :: "track list \<Rightarrow> player \<Rightarrow> bool" where
  "handles_ok pl s =
     (length (playlist s) = length pl
      \<and> (\<forall>i. constructions s i = (if handle_at s i = None then 0 else 1))
      \<and> (\<forall>i h. handle_at s i = Some h \<longrightarrow> hid h < howl_count s))"

text \<open>Every handle of \<open>s\<close> is still there in \<open>s'\<close>, under the same number.\<close>

definition keeps_handles :: "player \<Rightarrow> player \<Rightarrow> bool" where
  "keeps_handles s s' =
     (\<forall>j h. handle_at s j = Some h \<longrightarrow> (\<exists>h'. handle_at s' j = Some h' \<and> hid h' = hid h))"

text \<open>
  The first half of \<open>skipTo\<close>: the handle of the current track, if there is one, is
  stopped, and the progress bar is reset.
\<close>

definition stop_current :: "player \<Rightarrow> player" where
  "stop_current s =
     (case current_handle s of
        Some h \<Rightarrow> set_howl (nat (index s)) (howl_stop h) (log_call (HowlStop (nat (index s))) s)
      | None \<Rightarrow> s)\<lparr>progress_width := Some (Fin 0)\<rparr>"

text \<open>
  A handle reports no progress before it knows a duration: with duration 0 its position
  is none or 0.
\<close>

definition reports_ok :: "howl \<Rightarrow> bool" where
  "reports_ok h = (hduration h = 0 \<longrightarrow> (case hposition h of Some p \<Rightarrow> p | None \<Rightarrow> 0) = 0)"

definition all_reports_ok :: "player \<Rightarrow> bool" where
  "all_reports_ok s = (\<forall>j h. handle_at s j = Some h \<longrightarrow> reports_ok h)"

text \<open>
  A step keeps the reports when every handle after it either reports no progress without
  a duration, or reports the position and duration that the handle of the same track
  reported before.
\<close>

definition keeps_reports :: "player \<Rightarrow> player \<Rightarrow> bool" where
  "keeps_reports s s' =
     (\<forall>j h'. handle_at s' j = Some h' \<longrightarrow>
        reports_ok h'
        \<or> (\<exists>h. handle_at s j = Some h \<and> hposition h' = hposition h \<and> hduration h' = hduration h))"

section \<open>Formatting a time\<close>

lemma or_zero_id: "or_zero n = n"
  by (simp add: or_zero_def)

lemma floor_sixty: "\<lfloor>real_of_int secs / 60\<rfloor> = secs div 60"
  using floor_divide_of_int_eq [of secs 60] by simp

lemma two_digits:
  assumes "0 \<le> s" "s < 100"
  shows "(if s < 10 then ''0'' else '''') @ int_to_dec s
           = [digit_char (nat (s div 10)), digit_char (nat (s mod 10))]"
proof (cases "s < 10")
  case True
  with assms have "nat s < 10" "s div 10 = 0" "s mod 10 = s" by auto
  then show ?thesis using assms True
    by (simp add: int_to_dec_def nat_to_dec.simps [of "nat s"] digit_char_def)
next
  case False
  with assms have a: "\<not> nat s < 10" "nat s div 10 < 10" by auto
  have b: "nat s div 10 = nat (s div 10)" "nat s mod 10 = nat (s mod 10)"
    using assms by (simp_all add: nat_div_distrib nat_mod_distrib)
  show ?thesis using assms False a
    by (simp add: int_to_dec_def nat_to_dec.simps [of "nat s"]
          nat_to_dec.simps [of "nat (s div 10)"] b)
qed

lemma formatTime_shape:
  assumes "0 \<le> secs"
  shows "formatTime secs = int_to_dec (secs div 60) @ '':'' @
           [digit_char (nat (secs mod 60 div 10)), digit_char (nat (secs mod 60 mod 10))]"
proof -
  have m: "secs - secs div 60 * 60 = secs mod 60"
    by (simp add: minus_div_mult_eq_mod)
  have r: "0 \<le> secs mod 60" "secs mod 60 < 100"
    by (simp, smt (verit) pos_mod_bound)
  show ?thesis
    unfolding formatTime_def Let_def or_zero_id floor_sixty m
    using two_digits [OF r] by simp
qed

text \<open>
  C5. For a non-negative number of seconds, \<open>formatTime\<close> returns the minutes
  \<open>floor(secs/60)\<close> in plain decimal, a colon, and the remaining seconds as exactly two
  digits (tens, then units); \<open>formatTime(0)\<close> is \<open>0:00\<close>, \<open>formatTime(65)\<close> is \<open>1:05\<close>
  and \<open>formatTime(3599)\<close> is \<open>59:59\<close>.
\<close>

theorem formatTime_minutes_seconds:
  "(0 \<le> secs \<longrightarrow>
      formatTime secs = int_to_dec (secs div 60) @ '':'' @
        [digit_char (nat (secs mod 60 div 10)), digit_char (nat (secs mod 60 mod 10))])
   \<and> formatTime 0 = ''0:00'' \<and> formatTime 65 = ''1:05'' \<and> formatTime 3599 = ''59:59''"
proof -
  have "formatTime 0 = ''0:00''" by code_simp
  moreover have "formatTime 65 = ''1:05''" by code_simp
  moreover have "formatTime 3599 = ''59:59''" by code_simp
  ultimately show ?thesis using formatTime_shape by blast
qed

theorem formatTime_minutes_seconds_witness:
  "(0::int) \<le> 754 \<and> formatTime 754 = ''12:34''"
proof -
  have "int_to_dec (754 div 60) @ '':'' @
          [digit_char (nat (754 mod 60 div 10)), digit_char (nat (754 mod 60 mod 10))] = ''12:34''"
    by code_simp
  then show ?thesis using formatTime_minutes_seconds [of 754] by simp
qed

section \<open>Basic facts about states\<close>

lemma playlist_log_call [simp]: "playlist (log_call c s) = playlist s"
  and index_log_call [simp]: "index (log_call c s) = index s"
  and count_log_call [simp]: "howl_count (log_call c s) = howl_count s"
  and trace_log_call [simp]: "trace (log_call c s) = trace s @ [c]"
  by (simp_all add: log_call_def)

lemma playlist_set_howl [simp]:
    "playlist (set_howl i h s) = (playlist s)[i := (playlist s ! i)\<lparr>howl := Some h\<rparr>]"
  and index_set_howl [simp]: "index (set_howl i h s) = index s"
  and count_set_howl [simp]: "howl_count (set_howl i h s) = howl_count s"
  and trace_set_howl [simp]: "trace (set_howl i h s) = trace s"
  by (simp_all add: set_howl_def)

lemma handle_at_log_call [simp]: "handle_at (log_call c s) j = handle_at s j"
  by (simp add: handle_at_def)

lemma handle_at_set_howl:
  "handle_at (set_howl i h s) j = (if j = i \<and> i < length (playlist s) then Some h else handle_at s j)"
  by (auto simp: handle_at_def)

lemma update_handle_facts [simp]:
  "index (update_handle i f s) = index s"
  "length (playlist (update_handle i f s)) = length (playlist s)"
  "trace (update_handle i f s) = trace s"
  "howl_count (update_handle i f s) = howl_count s"
  by (simp_all add: update_handle_def split: option.splits)

lemma handle_at_update_handle:
  "handle_at (update_handle i f s) j = (if j = i then map_option f (handle_at s i) else handle_at s j)"
  by (auto simp: update_handle_def handle_at_set_howl handle_at_def split: option.splits)

lemma lookup_SomeD:
  "lookup_track pl i = Some data \<Longrightarrow> 0 \<le> i \<and> nat i < length pl \<and> data = pl ! nat i"
  by (auto simp: lookup_track_def split: if_splits)

lemma lookup_valid:
  "valid_index s \<Longrightarrow> lookup_track (playlist s) (index s) = Some (playlist s ! nat (index s))"
  by (simp add: valid_index_def lookup_track_def)

lemma current_handle_SomeD:
  assumes "current_handle s = Some h"
  shows "lookup_track (playlist s) (index s) = Some (playlist s ! nat (index s))"
    and "howl (playlist s ! nat (index s)) = Some h"
    and "nat (index s) < length (playlist s)"
    and "0 \<le> index s \<and> index s < int (length (playlist s))"
  using assms by (auto simp: current_handle_def lookup_track_def split: if_splits option.splits)

lemma current_handle_eq:
  "valid_index s \<Longrightarrow> current_handle s = handle_at s (nat (index s))"
  by (auto simp: current_handle_def handle_at_def lookup_track_def valid_index_def)

lemma constructions_log_call:
  "constructions (log_call c s) i = constructions s i + (if is_new i c then 1 else 0)"
  by (simp add: constructions_def)

lemma constructions_set_howl [simp]: "constructions (set_howl j h s) i = constructions s i"
  by (simp add: constructions_def)

lemma constructions_update_handle [simp]: "constructions (update_handle j f s) i = constructions s i"
  by (simp add: constructions_def)

section \<open>The effect of play\<close>

lemma play_raises:
  "lookup_track (playlist s) (case arg of Some n \<Rightarrow> n | None \<Rightarrow> index s) = None
     \<Longrightarrow> play arg s = Raised TypeError s"
  by (simp add: play_def)

lemma play_effect:
  assumes "lookup_track (playlist s) idx = Some data"
    and "idx = (case arg of Some n \<Rightarrow> n | None \<Rightarrow> index s)"
  shows "completes (play arg s)"
    and "index (state_of (play arg s)) = idx"
    and "playlist (state_of (play arg s))
           = (playlist s)[nat idx := data\<lparr>howl := Some (played (howl_count s) data)\<rparr>]"
    and "trace (state_of (play arg s))
           = trace s @ (if howl data = None then [HowlNew (nat idx) (howl_src data)] else [])
               @ [HowlPlay (nat idx)]"
    and "howl_count (state_of (play arg s))
           = (if howl data = None then Suc (howl_count s) else howl_count s)"
proof -
  have d: "data = playlist s ! nat idx" and r: "nat idx < length (playlist s)"
    using assms(1) by (auto simp: lookup_track_def split: if_splits)
  show "completes (play arg s)"
    using assms by (simp add: play_def Let_def)
  show "index (state_of (play arg s)) = idx"
    using assms by (simp add: play_def Let_def)
  show "playlist (state_of (play arg s))
           = (playlist s)[nat idx := data\<lparr>howl := Some (played (howl_count s) data)\<rparr>]"
    using assms r by (cases "howl data") (simp_all add: play_def Let_def played_def d)
  show "trace (state_of (play arg s))
           = trace s @ (if howl data = None then [HowlNew (nat idx) (howl_src data)] else [])
               @ [HowlPlay (nat idx)]"
    using assms by (cases "howl data") (simp_all add: play_def Let_def)
  show "howl_count (state_of (play arg s))
           = (if howl data = None then Suc (howl_count s) else howl_count s)"
    using assms by (cases "howl data") (simp_all add: play_def Let_def)
qed

lemma play_length: "length (playlist (state_of (play arg s))) = length (playlist s)"
proof (cases "lookup_track (playlist s) (case arg of Some n \<Rightarrow> n | None \<Rightarrow> index s)")
  case None then show ?thesis by (simp add: play_raises)
next
  case (Some data) then show ?thesis using play_effect(3) [OF Some refl] by simp
qed

lemma play_handle_at:
  assumes "lookup_track (playlist s) idx = Some data"
    and "idx = (case arg of Some n \<Rightarrow> n | None \<Rightarrow> index s)"
  shows "handle_at (state_of (play arg s)) j
           = (if j = nat idx then Some (played (howl_count s) data) else handle_at s j)"
  using lookup_SomeD [OF assms(1)] play_effect(3) [OF assms]
  by (auto simp: handle_at_def)

lemma hid_played: "hid (played k data) = (case howl data of Some h \<Rightarrow> hid h | None \<Rightarrow> k)"
  by (simp add: played_def howl_play_def new_howl_def split: option.splits)

lemma play_constructions:
  assumes "lookup_track (playlist s) idx = Some data"
    and "idx = (case arg of Some n \<Rightarrow> n | None \<Rightarrow> index s)"
  shows "constructions (state_of (play arg s)) j
           = constructions s j + (if howl data = None \<and> j = nat idx then 1 else 0)"
  using play_effect(4) [OF assms] by (simp add: constructions_def is_new_def)

section \<open>Facts about the sample states\<close>

lemma length_the_playlist: "length the_playlist = 20"
  by (simp add: the_playlist_def)

lemma the_playlist_nonempty: "the_playlist \<noteq> []"
  by (simp add: the_playlist_def)

lemma no_handles_the_playlist: "no_handles the_playlist"
  by (simp add: no_handles_def the_playlist_def song_def)

lemma playlist_player0: "playlist (player0 w) = the_playlist" and index_player0: "index (player0 w) = 0"
  by (simp_all add: player0_def Player_def)

lemma valid_player0: "valid_index (player0 w)"
  by (simp add: valid_index_def playlist_player0 index_player0 length_the_playlist)

lemma innerWidth_player0: "innerWidth (player0 w) = w"
  by (simp add: player0_def Player_def blank_page_def)

lemma handle_at_player0: "handle_at (player0 w) j = None"
proof -
  have "\<forall>t \<in> set the_playlist. howl t = None"
    by (simp add: the_playlist_def song_def)
  then show ?thesis by (simp add: handle_at_def playlist_player0)
qed

lemma trace_player0: "trace (player0 w) = []" and count_player0: "howl_count (player0 w) = 0"
  by (simp_all add: player0_def Player_def blank_page_def)

lemma current_handle_player0: "current_handle (player0 w) = None"
  by (simp add: current_handle_eq [OF valid_player0] handle_at_player0)

lemma example_loading_facts:
  "valid_index (example_loading w)"
  "index (example_loading w) = 0"
  "length (playlist (example_loading w)) = 20"
  "handle_at (example_loading w) j = (if j = 0 then Some (howl_play (new_howl 0)) else None)"
  "trace (example_loading w) = [HowlNew 0 [''./audio/01 - ND13.webm'', ''./audio/01 - ND13.mp3''], HowlPlay 0]"
  "howl_count (example_loading w) = 1"
proof -
  note l = lookup_valid [OF valid_player0, of w]
  have i: "index (player0 w) = (case None of Some n \<Rightarrow> n | None \<Rightarrow> index (player0 w))" by simp
  have h0: "howl (playlist (player0 w) ! nat (index (player0 w))) = None"
    using handle_at_player0 [of w 0]
    by (simp add: handle_at_def playlist_player0 index_player0 length_the_playlist)
  show a: "index (example_loading w) = 0"
    using play_effect(2) [OF l i] by (simp add: example_loading_def index_player0)
  show b: "length (playlist (example_loading w)) = 20"
    by (simp add: example_loading_def play_length playlist_player0 length_the_playlist)
  show "valid_index (example_loading w)"
    by (simp add: valid_index_def a b)
  show "handle_at (example_loading w) j = (if j = 0 then Some (howl_play (new_howl 0)) else None)"
    using play_handle_at [OF l i, of j] h0
    by (simp add: example_loading_def index_player0 handle_at_player0 played_def count_player0)
  show "trace (example_loading w) = [HowlNew 0 [''./audio/01 - ND13.webm'', ''./audio/01 - ND13.mp3''], HowlPlay 0]"
    using play_effect(4) [OF l i] h0
    by (simp add: example_loading_def index_player0 trace_player0 howl_src_def playlist_player0
          the_playlist_def song_def)
  show "howl_count (example_loading w) = 1"
    using play_effect(5) [OF l i] h0
    by (simp add: example_loading_def count_player0)
qed


lemma current_handle_example_loading:
  "current_handle (example_loading w) = Some (howl_play (new_howl 0))"
  by (simp add: current_handle_eq [OF example_loading_facts(1)] example_loading_facts)

lemma example_playing_facts:
  "valid_index (example_playing w)"
  "index (example_playing w) = 0"
  "current_handle (example_playing w)
     = Some \<lparr>hid = 0, hstate = Loaded, htransport = Playing, hposition = None, hduration = 200\<rparr>"
  "trace (example_playing w) = trace (example_loading w)"
proof -
  show v: "valid_index (example_playing w)"
    using example_loading_facts(1) [of w]
    by (simp add: example_playing_def lib_loaded_def valid_index_def)
  show "index (example_playing w) = 0"
    by (simp add: example_playing_def lib_loaded_def example_loading_facts)
  then show "current_handle (example_playing w)
     = Some \<lparr>hid = 0, hstate = Loaded, htransport = Playing, hposition = None, hduration = 200\<rparr>"
    by (simp add: current_handle_eq [OF v])
       (simp add: example_playing_def lib_loaded_def handle_at_update_handle
          example_loading_facts howl_play_def new_howl_def)
  show "trace (example_playing w) = trace (example_loading w)"
    by (simp add: example_playing_def lib_loaded_def)
qed


section \<open>Skipping\<close>

lemma wrap_next:
  fixes i n :: int
  assumes "0 \<le> i" "i < n"
  shows "(i + 1) mod n = (if n \<le> i + 1 then 0 else i + 1)"
proof (cases "n \<le> i + 1")
  case True
  with assms have "i + 1 = n" by simp
  then show ?thesis using True by simp
next
  case False
  then show ?thesis using assms by (simp add: mod_pos_pos_trivial)
qed

lemma wrap_prev:
  fixes i n :: int
  assumes "0 \<le> i" "i < n"
  shows "(i - 1 + n) mod n = (if i - 1 < 0 then n - 1 else i - 1)"
proof (cases "i - 1 < 0")
  case True
  with assms have "i = 0" by simp
  then show ?thesis using assms by (simp add: zmod_minus1)
next
  case False
  then show ?thesis using assms by (simp add: mod_pos_pos_trivial)
qed

text \<open>
  C2. In a state whose index is in the playlist, \<open>skip('next')\<close> is \<open>skipTo\<close> of
  \<open>(currentIndex + 1) mod length\<close> and \<open>skip('prev')\<close> is \<open>skipTo\<close> of
  \<open>(currentIndex - 1 + length) mod length\<close>; from the last index \<open>next\<close> goes to 0 and
  from index 0 \<open>prev\<close> goes to the last index.
\<close>

theorem skip_wraps:
  assumes "valid_index s"
  shows "skip ''next'' s = skipTo ((index s + 1) mod int (length (playlist s))) s
       \<and> skip ''prev'' s
           = skipTo ((index s - 1 + int (length (playlist s))) mod int (length (playlist s))) s
       \<and> (index s = int (length (playlist s)) - 1 \<longrightarrow> skip ''next'' s = skipTo 0 s)
       \<and> (index s = 0 \<longrightarrow> skip ''prev'' s = skipTo (int (length (playlist s)) - 1) s)"
proof -
  let ?n = "int (length (playlist s))"
  have r: "0 \<le> index s" "index s < ?n" using assms by (simp_all add: valid_index_def)
  have nx: "(index s + 1) mod ?n = (if index s + 1 \<ge> ?n then 0 else index s + 1)"
    using wrap_next [OF r] .
  have pv: "(index s - 1 + ?n) mod ?n = (if index s - 1 < 0 then ?n - 1 else index s - 1)"
    using wrap_prev [OF r] .
  show ?thesis
    unfolding nx pv using r by (simp add: skip_def Let_def)
qed

theorem skip_wraps_witness:
  "valid_index (player0 800) \<and> skip ''prev'' (player0 800) = skipTo 19 (player0 800)
     \<and> skip ''next'' (player0 800) = skipTo 1 (player0 800)"
  using skip_wraps [OF valid_player0, of 800]
  by (simp add: valid_player0 playlist_player0 index_player0 length_the_playlist)

text \<open>
  C10. Every direction string other than \<open>'prev'\<close> behaves exactly as \<open>'next'\<close>: it skips
  to \<open>(currentIndex + 1) mod length\<close>.
\<close>

theorem skip_other_direction:
  assumes "direction \<noteq> ''prev''"
  shows "skip direction s = skip ''next'' s
       \<and> (valid_index s \<longrightarrow>
            skip direction s = skipTo ((index s + 1) mod int (length (playlist s))) s)"
proof -
  have a: "skip direction s = skip ''next'' s"
    using assms by (simp add: skip_def)
  have "valid_index s \<Longrightarrow> skip ''next'' s = skipTo ((index s + 1) mod int (length (playlist s))) s"
  proof -
    assume "valid_index s"
    then have r: "0 \<le> index s" "index s < int (length (playlist s))" by (simp_all add: valid_index_def)
    have "(index s + 1) mod int (length (playlist s)) = (if index s + 1 \<ge> int (length (playlist s)) then 0 else index s + 1)"
      using wrap_next [OF r] .
    then show ?thesis by (simp add: skip_def Let_def)
  qed
  with a show ?thesis by simp
qed

theorem skip_other_direction_witness:
  "''Prev'' \<noteq> ''prev'' \<and> valid_index (player0 800)
     \<and> skip ''Prev'' (player0 800) = skip ''next'' (player0 800)
     \<and> skip ''Prev'' (player0 800) = skipTo 1 (player0 800)"
proof -
  have d: "''Prev'' \<noteq> ''prev''" by simp
  show ?thesis
    using skip_other_direction [OF d, of "player0 800"]
    by (auto simp add: valid_player0 playlist_player0 index_player0 length_the_playlist)
qed

section \<open>Volume\<close>

text \<open>
  C4 (as amended). For a level in \<open>[0,1]\<close> and a viewport of non-negative width,
  \<open>volume(level)\<close> sets the global volume of the library to the level, the width of the
  slider fill to \<open>level * 90\<close> percent, and the offset of the slider button to
  \<open>viewportWidth * (level * 0.9 + 0.05) - 25\<close> pixels, which lies between
  \<open>viewportWidth * 0.05 - 25\<close> and \<open>viewportWidth * 0.95 - 25\<close>; the offset is
  non-negative when the viewport is at least 500 pixels wide.
\<close>

theorem volume_slider:
  assumes "0 \<le> level" "level \<le> 1" "0 \<le> innerWidth s"
  shows "howler_volume (volume level s) = level
       \<and> trace (volume level s) = trace s @ [HowlerVolume level]
       \<and> barFull_width (volume level s) = Some (level * 90)
       \<and> sliderBtn_left (volume level s) = Some (innerWidth s * (level * 0.9 + 0.05) - 25)
       \<and> innerWidth s * 0.05 - 25 \<le> innerWidth s * (level * 0.9 + 0.05) - 25
       \<and> innerWidth s * (level * 0.9 + 0.05) - 25 \<le> innerWidth s * 0.95 - 25
       \<and> (500 \<le> innerWidth s \<longrightarrow> 0 \<le> innerWidth s * (level * 0.9 + 0.05) - 25)"
proof -
  let ?w = "innerWidth s"
  have lo: "?w * 0.05 \<le> ?w * (level * 0.9 + 0.05)"
    using assms by (intro mult_left_mono) simp_all
  have hi: "?w * (level * 0.9 + 0.05) \<le> ?w * 0.95"
    using assms by (intro mult_left_mono) simp_all
  have nn: "500 \<le> ?w \<Longrightarrow> 0 \<le> ?w * 0.05 - 25" by simp
  have st: "howler_volume (volume level s) = level"
    "trace (volume level s) = trace s @ [HowlerVolume level]"
    "barFull_width (volume level s) = Some (level * 90)"
    "sliderBtn_left (volume level s) = Some (?w * (level * 0.9 + 0.05) - 25)"
    by (simp_all add: volume_def Let_def algebra_simps)
  show ?thesis using st lo hi nn by auto
qed

theorem volume_slider_witness:
  "(0::real) \<le> 1 / 2 \<and> (1 / 2 :: real) \<le> 1 \<and> 0 \<le> innerWidth (player0 1000)
   \<and> howler_volume (volume (1 / 2) (player0 1000)) = 1 / 2
   \<and> barFull_width (volume (1 / 2) (player0 1000)) = Some 45
   \<and> sliderBtn_left (volume (1 / 2) (player0 1000)) = Some 475"
  using volume_slider [of "1 / 2" "player0 1000"]
  by (simp add: innerWidth_player0)

text \<open>
  In a viewport 400 pixels wide, \<open>volume(0)\<close> puts the slider button at \<open>-5\<close> pixels,
  below the interval \<open>[0, 400 * 0.95 - 25]\<close>: nothing clamps the offset.
\<close>

theorem volume_slider_counterexample:
  "sliderBtn_left (volume 0 (player0 400)) = Some (- 5) \<and> (- 5 :: real) < 0"
  by (simp add: volume_def Let_def innerWidth_player0)

section \<open>Seeking\<close>

text \<open>
  C3. When the current track has no handle, \<open>seek\<close> throws and the state stays as it
  was; when its handle does not report playing, \<open>seek\<close> returns the state unchanged;
  when the handle reports playing, the position becomes the fraction times the duration
  and the only call made is that \<open>seek\<close> on the handle.
\<close>

theorem seek_only_when_playing:
  "(current_handle s = None \<longrightarrow> seek per s = Raised TypeError s)
   \<and> (\<forall>h. current_handle s = Some h \<and> \<not> howl_playing h \<longrightarrow> seek per s = Done s)
   \<and> (\<forall>h. current_handle s = Some h \<and> howl_playing h \<longrightarrow>
         completes (seek per s)
         \<and> current_handle (state_of (seek per s)) = Some (h\<lparr>hposition := Some (per * hduration h)\<rparr>)
         \<and> trace (state_of (seek per s))
             = trace s @ [HowlSeek (nat (index s)) (per * hduration h)])"
proof (intro conjI allI impI)
  assume "current_handle s = None"
  then show "seek per s = Raised TypeError s"
    by (auto simp: current_handle_def seek_def split: option.splits)
next
  fix h assume "current_handle s = Some h \<and> \<not> howl_playing h"
  then show "seek per s = Done s"
    by (auto simp: current_handle_def seek_def split: option.splits)
next
  fix h assume a: "current_handle s = Some h \<and> howl_playing h"
  note d = current_handle_SomeD [OF conjunct1 [OF a]]
  have e: "seek per s = Done (set_howl (nat (index s)) (howl_seek (hduration h * per) h)
             (log_call (HowlSeek (nat (index s)) (hduration h * per)) s))"
    using a d by (simp add: seek_def Let_def)
  show "completes (seek per s)" by (simp add: e)
  show "current_handle (state_of (seek per s)) = Some (h\<lparr>hposition := Some (per * hduration h)\<rparr>)"
    using d by (simp add: e current_handle_def lookup_track_def howl_seek_def mult.commute)
  show "trace (state_of (seek per s)) = trace s @ [HowlSeek (nat (index s)) (per * hduration h)]"
    by (simp add: e mult.commute)
qed

theorem seek_only_when_playing_witness:
  "current_handle (player0 800) = None
   \<and> seek (1 / 4) (player0 800) = Raised TypeError (player0 800)
   \<and> current_handle (example_loading 800) = Some (howl_play (new_howl 0))
   \<and> \<not> howl_playing (howl_play (new_howl 0))
   \<and> seek (1 / 4) (example_loading 800) = Done (example_loading 800)
   \<and> howl_playing \<lparr>hid = 0, hstate = Loaded, htransport = Playing, hposition = None, hduration = 200\<rparr>
   \<and> current_handle (state_of (seek (1 / 4) (example_playing 800)))
       = Some \<lparr>hid = 0, hstate = Loaded, htransport = Playing, hposition = Some 50, hduration = 200\<rparr>
   \<and> trace (state_of (seek (1 / 4) (example_playing 800)))
       = trace (example_playing 800) @ [HowlSeek 0 50]"
proof -
  have np: "\<not> howl_playing (howl_play (new_howl 0))"
    by (simp add: howl_playing_def howl_play_def new_howl_def)
  have pl: "howl_playing \<lparr>hid = 0, hstate = Loaded, htransport = Playing, hposition = None, hduration = 200\<rparr>"
    by (simp add: howl_playing_def)
  show ?thesis
    using seek_only_when_playing [of "player0 800" "1 / 4"]
      seek_only_when_playing [of "example_loading 800" "1 / 4"]
      seek_only_when_playing [of "example_playing 800" "1 / 4"]
      np pl
    by (simp add: current_handle_player0 current_handle_example_loading example_playing_facts)
qed

section \<open>Playing\<close>

text \<open>
  C6. \<open>play\<close> without a number is \<open>play\<close> of the current index. \<open>play\<close> completes
  exactly when the target index is in the playlist, and then the current index is the
  target, the handle of the target track is the handle it had, or a new one, after its
  \<open>play\<close> operation, and the last call made is that \<open>play\<close>, preceded by the
  construction of the handle only when the track had none.
\<close>

theorem play_sets_index:
  "play None s = play (Some (index s)) s
   \<and> completes (play arg s)
       = (lookup_track (playlist s) (case arg of Some n \<Rightarrow> n | None \<Rightarrow> index s) \<noteq> None)
   \<and> (completes (play arg s) \<longrightarrow>
        index (state_of (play arg s)) = (case arg of Some n \<Rightarrow> n | None \<Rightarrow> index s)
        \<and> handle_at (state_of (play arg s)) (nat (case arg of Some n \<Rightarrow> n | None \<Rightarrow> index s))
            = Some (howl_play
                (case handle_at s (nat (case arg of Some n \<Rightarrow> n | None \<Rightarrow> index s)) of
                   Some h \<Rightarrow> h | None \<Rightarrow> new_howl (howl_count s)))
        \<and> trace (state_of (play arg s))
            = trace s
              @ (if handle_at s (nat (case arg of Some n \<Rightarrow> n | None \<Rightarrow> index s)) = None
                 then [HowlNew (nat (case arg of Some n \<Rightarrow> n | None \<Rightarrow> index s))
                         (howl_src (playlist s ! nat (case arg of Some n \<Rightarrow> n | None \<Rightarrow> index s)))]
                 else [])
              @ [HowlPlay (nat (case arg of Some n \<Rightarrow> n | None \<Rightarrow> index s))])"
proof -
  let ?t = "case arg of Some n \<Rightarrow> n | None \<Rightarrow> index s"
  have a: "play None s = play (Some (index s)) s"
    by (simp add: play_def)
  have b: "completes (play arg s) = (lookup_track (playlist s) ?t \<noteq> None)"
  proof (cases "lookup_track (playlist s) ?t")
    case None then show ?thesis by (simp add: play_raises)
  next
    case (Some data) then show ?thesis using play_effect(1) [OF Some refl] by simp
  qed
  have c: "index (state_of (play arg s)) = ?t
        \<and> handle_at (state_of (play arg s)) (nat ?t)
            = Some (howl_play (case handle_at s (nat ?t) of
                   Some h \<Rightarrow> h | None \<Rightarrow> new_howl (howl_count s)))
        \<and> trace (state_of (play arg s))
            = trace s
              @ (if handle_at s (nat ?t) = None
                 then [HowlNew (nat ?t) (howl_src (playlist s ! nat ?t))] else [])
              @ [HowlPlay (nat ?t)]"
    if "completes (play arg s)"
  proof -
    from that b obtain data where d: "lookup_track (playlist s) ?t = Some data" by auto
    note e = play_effect [OF d refl] and f = play_handle_at [OF d refl] and g = lookup_SomeD [OF d]
    have "handle_at s (nat ?t) = howl data" "playlist s ! nat ?t = data"
      using g by (simp_all add: handle_at_def)
    then show ?thesis using e(2) e(4) f [of "nat ?t"] by (simp add: played_def)
  qed
  show ?thesis using a b c by blast
qed

theorem play_sets_index_witness:
  "completes (play (Some 3) (example_loading 800))
   \<and> index (state_of (play (Some 3) (example_loading 800))) = 3
   \<and> handle_at (state_of (play (Some 3) (example_loading 800))) 3 = Some (howl_play (new_howl 1))
   \<and> completes (play None (example_loading 800))
   \<and> index (state_of (play None (example_loading 800))) = 0
   \<and> handle_at (state_of (play None (example_loading 800))) 0
       = Some (howl_play (howl_play (new_howl 0)))"
proof -
  have l: "lookup_track (playlist (example_loading 800)) 3 \<noteq> None"
    "lookup_track (playlist (example_loading 800)) 0 \<noteq> None"
    by (simp_all add: lookup_track_def example_loading_facts)
  show ?thesis
    using play_sets_index [of "example_loading 800" "Some 3"]
      play_sets_index [of "example_loading 800" None] l
    by (auto simp add: example_loading_facts)
qed

section \<open>Progress display\<close>



section \<open>Quiet steps\<close>

lemma quiet_refl: "quiet s s"
  by (simp add: quiet_def split: option.splits)

lemma quiet_None:
  assumes "quiet s s'" "handle_at s j = None"
  shows "handle_at s' j = None"
proof -
  from assms(1) have "case handle_at s j of None \<Rightarrow> handle_at s' j = None
     | Some h \<Rightarrow> (\<exists>h'. handle_at s' j = Some h' \<and> hid h' = hid h
          \<and> (int j \<noteq> index s \<and> htransport h = Stopped \<longrightarrow> htransport h' = Stopped))"
    unfolding quiet_def by blast
  with assms(2) show ?thesis by simp
qed

lemma quiet_Some:
  assumes "quiet s s'" "handle_at s j = Some h"
  shows "\<exists>h'. handle_at s' j = Some h' \<and> hid h' = hid h
          \<and> (int j \<noteq> index s \<and> htransport h = Stopped \<longrightarrow> htransport h' = Stopped)"
proof -
  from assms(1) have "case handle_at s j of None \<Rightarrow> handle_at s' j = None
     | Some h \<Rightarrow> (\<exists>h'. handle_at s' j = Some h' \<and> hid h' = hid h
          \<and> (int j \<noteq> index s \<and> htransport h = Stopped \<longrightarrow> htransport h' = Stopped))"
    unfolding quiet_def by blast
  with assms(2) show ?thesis by simp
qed

lemma quiet_facts:
  assumes "quiet s s'"
  shows "length (playlist s') = length (playlist s)" "index s' = index s"
    "howl_count s' = howl_count s" "constructions s' i = constructions s i"
  using assms unfolding quiet_def by blast+

lemma quiet_handles_ok:
  assumes "quiet s s'" "handles_ok pl s"
  shows "handles_ok pl s'"
proof -
  have a: "constructions s' i = (if handle_at s' i = None then 0 else 1)" for i
  proof (cases "handle_at s i")
    case None
    then show ?thesis
      using quiet_None [OF assms(1) None] assms(2) quiet_facts(4) [OF assms(1), of i]
      by (simp add: handles_ok_def)
  next
    case (Some h)
    then show ?thesis
      using quiet_Some [OF assms(1) Some] assms(2) quiet_facts(4) [OF assms(1), of i]
      by (auto simp: handles_ok_def)
  qed
  have b: "hid h' < howl_count s'" if "handle_at s' i = Some h'" for i h'
  proof (cases "handle_at s i")
    case None
    then show ?thesis using quiet_None [OF assms(1) None] that by simp
  next
    case (Some h)
    then have "hid h < howl_count s" using assms(2) by (simp add: handles_ok_def)
    then show ?thesis
      using quiet_Some [OF assms(1) Some] that quiet_facts(3) [OF assms(1)] by auto
  qed
  show ?thesis
    using a b assms(2) quiet_facts(1) [OF assms(1)] by (simp add: handles_ok_def)
qed

lemma quiet_valid_index: "quiet s s' \<Longrightarrow> valid_index s \<Longrightarrow> valid_index s'"
  by (simp add: quiet_def valid_index_def)



lemma quiet_keeps_handles: "quiet s s' \<Longrightarrow> keeps_handles s s'"
  unfolding keeps_handles_def using quiet_Some by blast

lemma quiet_same:
  assumes "playlist s' = playlist s" "index s' = index s" "howl_count s' = howl_count s"
    "\<forall>i. constructions s' i = constructions s i"
  shows "quiet s s'"
  using assms by (simp add: quiet_def handle_at_def split: option.splits)

lemma quiet_pause: "quiet s (state_of (pause s))"
  by (auto simp: pause_def Let_def quiet_def handle_at_def constructions_def is_new_def
        howl_pause_def nth_list_update lookup_track_def split: option.splits if_splits)

lemma quiet_seek: "quiet s (state_of (seek per s))"
  by (auto simp: seek_def Let_def quiet_def handle_at_def constructions_def is_new_def
        howl_seek_def nth_list_update lookup_track_def split: option.splits if_splits)

lemma quiet_step: "quiet s (state_of (step s))"
  by (auto simp: step_def Let_def constructions_def is_new_def
        split: option.splits if_splits intro!: quiet_same)

lemma quiet_volume: "quiet s (volume val s)"
  by (auto simp: volume_def Let_def constructions_def is_new_def intro!: quiet_same)

lemma quiet_on_play: "quiet s (on_play i s)"
  by (auto simp: on_play_def constructions_def is_new_def split: option.splits intro!: quiet_same)

lemma quiet_on_load: "quiet s (on_load s)"
  by (auto simp: on_load_def constructions_def intro!: quiet_same)

lemma quiet_on_pause: "quiet s (on_pause s)"
  by (auto simp: on_pause_def constructions_def intro!: quiet_same)

lemma quiet_on_stop: "quiet s (on_stop s)"
  by (auto simp: on_stop_def constructions_def intro!: quiet_same)

lemma quiet_on_seek: "quiet s (on_seek s)"
  by (auto simp: on_seek_def constructions_def is_new_def intro!: quiet_same)

lemma quiet_update_handle:
  assumes "\<And>h. hid (f h) = hid h" "\<And>h. htransport h = Stopped \<Longrightarrow> htransport (f h) = Stopped"
  shows "quiet s (update_handle i f s)"
  using assms
  by (auto simp: update_handle_def quiet_def handle_at_def constructions_def nth_list_update
        split: option.splits if_splits)

lemma quiet_lib_loaded: "quiet s (lib_loaded i d s)"
  unfolding lib_loaded_def by (rule quiet_update_handle) simp_all

lemma quiet_lib_progress: "quiet s (lib_progress i p s)"
  unfolding lib_progress_def by (rule quiet_update_handle) simp_all

lemma quiet_lib_ended: "quiet s (lib_ended i s)"
  unfolding lib_ended_def by (rule quiet_update_handle) simp_all

section \<open>Handles under play\<close>

lemma play_handles_ok:
  assumes "handles_ok pl s"
  shows "handles_ok pl (state_of (play arg s))"
proof (cases "lookup_track (playlist s) (case arg of Some n \<Rightarrow> n | None \<Rightarrow> index s)")
  case None
  then show ?thesis using assms by (simp add: play_raises)
next
  case (Some data)
  let ?t = "case arg of Some n \<Rightarrow> n | None \<Rightarrow> index s"
  let ?s' = "state_of (play arg s)"
  note e = play_effect [OF Some refl] and h = play_handle_at [OF Some refl]
    and c = play_constructions [OF Some refl] and g = lookup_SomeD [OF Some]
  have d: "handle_at s (nat ?t) = howl data" using g by (simp add: handle_at_def)
  have 1: "length (playlist ?s') = length pl"
    using assms by (simp add: play_length handles_ok_def)
  have 2: "constructions ?s' i = (if handle_at ?s' i = None then 0 else 1)" for i
    using assms d by (simp add: c h handles_ok_def)
  have 3: "hid h' < howl_count ?s'" if "handle_at ?s' i = Some h'" for i h'
  proof (cases "i = nat ?t")
    case True
    then have h': "h' = played (howl_count s) data" using that by (simp add: h)
    show ?thesis
    proof (cases "howl data")
      case None
      then show ?thesis by (simp add: h' hid_played e(5))
    next
      case (Some h0)
      then have "hid h0 < howl_count s" using assms d by (simp add: handles_ok_def)
      then show ?thesis using Some by (simp add: h' hid_played e(5))
    qed
  next
    case False
    then have "handle_at s i = Some h'" using that by (simp add: h)
    then have "hid h' < howl_count s" using assms by (simp add: handles_ok_def)
    then show ?thesis by (simp add: e(5))
  qed
  show ?thesis using 1 2 3 by (simp add: handles_ok_def)
qed

lemma play_keeps_handles: "keeps_handles s (state_of (play arg s))"
proof (cases "lookup_track (playlist s) (case arg of Some n \<Rightarrow> n | None \<Rightarrow> index s)")
  case None
  then show ?thesis by (simp add: play_raises keeps_handles_def)
next
  case (Some data)
  note h = play_handle_at [OF Some refl] and g = lookup_SomeD [OF Some]
  have d: "handle_at s (nat (case arg of Some n \<Rightarrow> n | None \<Rightarrow> index s)) = howl data"
    using g by (simp add: handle_at_def)
  show ?thesis
    unfolding keeps_handles_def using d by (auto simp: h hid_played)
qed


lemma play_valid_index:
  assumes "valid_index s"
  shows "valid_index (state_of (play arg s))"
proof (cases "lookup_track (playlist s) (case arg of Some n \<Rightarrow> n | None \<Rightarrow> index s)")
  case None
  then show ?thesis using assms by (simp add: play_raises)
next
  case (Some data)
  show ?thesis
    using play_effect(2) [OF Some refl] lookup_SomeD [OF Some]
    by (auto simp: valid_index_def play_length)
qed

section \<open>Handles under skipTo\<close>

lemma skipTo_raises: "\<not> valid_index s \<Longrightarrow> skipTo idx s = Raised TypeError s"
  by (auto simp: skipTo_def valid_index_def lookup_track_def)

lemma skipTo_play: "valid_index s \<Longrightarrow> skipTo idx s = play (Some idx) (stop_current s)"
  by (simp add: skipTo_def lookup_valid stop_current_def current_handle_def Let_def
        split: option.splits)

lemma quiet_stop_current: "quiet s (stop_current s)"
  by (auto simp: stop_current_def current_handle_def quiet_def handle_at_def constructions_def
        is_new_def howl_stop_def nth_list_update lookup_track_def split: option.splits if_splits)


lemma keeps_handles_trans:
  "keeps_handles s s' \<Longrightarrow> keeps_handles s' s'' \<Longrightarrow> keeps_handles s s''"
  unfolding keeps_handles_def by (metis)

lemma skipTo_handles_ok: "handles_ok pl s \<Longrightarrow> handles_ok pl (state_of (skipTo idx s))"
proof (cases "valid_index s")
  case False
  assume "handles_ok pl s"
  then show ?thesis using False by (simp add: skipTo_raises)
next
  case True
  assume "handles_ok pl s"
  then have "handles_ok pl (stop_current s)" using quiet_handles_ok [OF quiet_stop_current] by blast
  then show ?thesis using True by (simp add: skipTo_play play_handles_ok)
qed

lemma skipTo_keeps_handles: "keeps_handles s (state_of (skipTo idx s))"
proof (cases "valid_index s")
  case False
  then show ?thesis by (simp add: skipTo_raises keeps_handles_def)
next
  case True
  show ?thesis
    using keeps_handles_trans [OF quiet_keeps_handles [OF quiet_stop_current] play_keeps_handles]
    by (simp add: skipTo_play [OF True])
qed

lemma skipTo_valid_index: "valid_index s \<Longrightarrow> valid_index (state_of (skipTo idx s))"
  using quiet_valid_index [OF quiet_stop_current]
  by (simp add: skipTo_play play_valid_index)


section \<open>Handles under events\<close>

lemma skip_is_skipTo: "\<exists>t. skip d s = skipTo t s"
  unfolding skip_def Let_def by (rule exI) (rule refl)

lemma quiet_wave:
  "quiet s (s\<lparr>wave_display := a, bar_display := b\<rparr>)"
  by (rule quiet_same) (simp_all add: constructions_def)

lemma keeps_handles_refl: "keeps_handles s s"
  by (simp add: keeps_handles_def)

lemma exec_handles_ok:
  assumes "handles_ok pl s"
  shows "handles_ok pl (state_of (exec e s))"
proof (cases e)
  case ClickPlay then show ?thesis using assms by (simp add: play_handles_ok)
next
  case ClickPause then show ?thesis using quiet_handles_ok [OF quiet_pause assms] by simp
next
  case ClickPrev
  then show ?thesis using skip_is_skipTo [of "''prev''" s] skipTo_handles_ok [OF assms] by auto
next
  case ClickNext
  then show ?thesis using skip_is_skipTo [of "''next''" s] skipTo_handles_ok [OF assms] by auto
next
  case (ClickSong i) then show ?thesis using assms by (simp add: skipTo_handles_ok)
next
  case (ClickWaveform per) then show ?thesis using quiet_handles_ok [OF quiet_seek assms] by simp
next
  case (SetVolume val) then show ?thesis using quiet_handles_ok [OF quiet_volume assms] by simp
next
  case Frame then show ?thesis using quiet_handles_ok [OF quiet_step assms] by simp
next
  case (OnPlay i) then show ?thesis using quiet_handles_ok [OF quiet_on_play assms] by simp
next
  case OnLoad then show ?thesis using quiet_handles_ok [OF quiet_on_load assms] by simp
next
  case OnEnd
  let ?s0 = "s\<lparr>wave_display := ''none'', bar_display := ''block''\<rparr>"
  have "handles_ok pl ?s0" using quiet_handles_ok [OF quiet_wave assms] .
  then show ?thesis
    using OnEnd skip_is_skipTo [of "''next''" ?s0] skipTo_handles_ok [of pl ?s0]
    by (auto simp: on_end_def)
next
  case OnPause then show ?thesis using quiet_handles_ok [OF quiet_on_pause assms] by simp
next
  case OnStop then show ?thesis using quiet_handles_ok [OF quiet_on_stop assms] by simp
next
  case OnSeek then show ?thesis using quiet_handles_ok [OF quiet_on_seek assms] by simp
next
  case (LibLoaded i d) then show ?thesis using quiet_handles_ok [OF quiet_lib_loaded assms] by simp
next
  case (LibProgress i p) then show ?thesis using quiet_handles_ok [OF quiet_lib_progress assms] by simp
next
  case (LibEnded i) then show ?thesis using quiet_handles_ok [OF quiet_lib_ended assms] by simp
qed

lemma skip_keeps_handles: "keeps_handles s (state_of (skip d s))"
  using skip_is_skipTo [of d s] skipTo_keeps_handles [of s] by auto

lemma exec_keeps_handles: "keeps_handles s (state_of (exec e s))"
proof (cases e)
  case ClickPlay then show ?thesis by (simp add: play_keeps_handles)
next
  case ClickPause then show ?thesis by (simp add: quiet_keeps_handles [OF quiet_pause])
next
  case ClickPrev then show ?thesis by (simp add: skip_keeps_handles)
next
  case ClickNext then show ?thesis by (simp add: skip_keeps_handles)
next
  case (ClickSong i) then show ?thesis by (simp add: skipTo_keeps_handles keeps_handles_refl)
next
  case (ClickWaveform per) then show ?thesis by (simp add: quiet_keeps_handles [OF quiet_seek])
next
  case (SetVolume val) then show ?thesis by (simp add: quiet_keeps_handles [OF quiet_volume])
next
  case Frame then show ?thesis by (simp add: quiet_keeps_handles [OF quiet_step])
next
  case (OnPlay i) then show ?thesis by (simp add: quiet_keeps_handles [OF quiet_on_play])
next
  case OnLoad then show ?thesis by (simp add: quiet_keeps_handles [OF quiet_on_load])
next
  case OnEnd
  let ?s0 = "s\<lparr>wave_display := ''none'', bar_display := ''block''\<rparr>"
  have "keeps_handles s ?s0" using quiet_keeps_handles [OF quiet_wave] .
  moreover have "keeps_handles ?s0 (state_of (skip ''next'' ?s0))" using skip_keeps_handles .
  ultimately show ?thesis
    using OnEnd keeps_handles_trans by (simp add: on_end_def)
next
  case OnPause then show ?thesis by (simp add: quiet_keeps_handles [OF quiet_on_pause])
next
  case OnStop then show ?thesis by (simp add: quiet_keeps_handles [OF quiet_on_stop])
next
  case OnSeek then show ?thesis by (simp add: quiet_keeps_handles [OF quiet_on_seek])
next
  case (LibLoaded i d) then show ?thesis by (simp add: quiet_keeps_handles [OF quiet_lib_loaded])
next
  case (LibProgress i p) then show ?thesis by (simp add: quiet_keeps_handles [OF quiet_lib_progress])
next
  case (LibEnded i) then show ?thesis by (simp add: quiet_keeps_handles [OF quiet_lib_ended])
qed




lemma exec_valid_index: "valid_index s \<Longrightarrow> valid_index (state_of (exec e s))"
proof -
  assume v: "valid_index s"
  let ?s0 = "s\<lparr>wave_display := ''none'', bar_display := ''block''\<rparr>"
  have k: "valid_index (state_of (skip d s'))" if "valid_index s'" for d s'
    using skip_is_skipTo [of d s'] skipTo_valid_index [OF that] by auto
  have "valid_index ?s0" using v by (simp add: valid_index_def)
  then have o: "valid_index (state_of (on_end s))" using k by (simp add: on_end_def)
  show ?thesis
    using v o
    by (cases e)
       (simp_all add: play_valid_index k skipTo_valid_index
          quiet_valid_index [OF quiet_pause] quiet_valid_index [OF quiet_seek]
          quiet_valid_index [OF quiet_volume] quiet_valid_index [OF quiet_step]
          quiet_valid_index [OF quiet_on_play] quiet_valid_index [OF quiet_on_load]
          quiet_valid_index [OF quiet_on_pause] quiet_valid_index [OF quiet_on_stop]
          quiet_valid_index [OF quiet_on_seek] quiet_valid_index [OF quiet_lib_loaded]
          quiet_valid_index [OF quiet_lib_progress] quiet_valid_index [OF quiet_lib_ended])
qed

section \<open>Reachable states\<close>

lemma Player_facts:
  "playlist (Player pl page) = pl" "index (Player pl page) = 0"
  "trace (Player pl page) = trace page" "howl_count (Player pl page) = howl_count page"
  by (simp_all add: Player_def)

lemma no_handles_handle_at: "no_handles pl \<Longrightarrow> handle_at (Player pl page) j = None"
  by (simp add: handle_at_def Player_facts no_handles_def list_all_length)

lemma reachable_valid_index:
  assumes "reachable pl s" "pl \<noteq> []"
  shows "valid_index s"
  using assms
proof (induction rule: reachable.induct)
  case (start page)
  then show ?case by (simp add: valid_index_def Player_facts)
next
  case (after s e)
  then show ?case by (simp add: exec_valid_index)
qed


lemma reachable_handles_ok:
  assumes "reachable pl s" "no_handles pl"
  shows "handles_ok pl s"
  using assms
proof (induction rule: reachable.induct)
  case (start page)
  then show ?case
    by (simp add: handles_ok_def no_handles_handle_at Player_facts constructions_def)
next
  case (after s e)
  then show ?case by (simp add: exec_handles_ok)
qed

section \<open>The index stays in the playlist\<close>

lemma reachable_player0: "reachable the_playlist (player0 w)"
  unfolding player0_def by (rule reachable.start) (simp add: blank_page_def)

lemma reachable_example_loading: "reachable the_playlist (example_loading w)"
  unfolding example_loading_def by (rule reachable.after [OF reachable_player0])

lemma reachable_example_playing: "reachable the_playlist (example_playing w)"
  unfolding example_playing_def by (rule reachable.after [OF reachable_example_loading])

text \<open>
  C9. In the state after the constructor and after every sequence of events (the play,
  pause, previous and next buttons, a click on a playlist entry, the volume slider, a
  click on the waveform, an animation frame, the callbacks of the handles), the current
  index is an integer in \<open>[0, length)\<close> and refers to an entry of the playlist.
\<close>

theorem index_always_valid:
  assumes "reachable pl s" "pl \<noteq> []"
  shows "0 \<le> index s \<and> index s < int (length (playlist s))
       \<and> lookup_track (playlist s) (index s) \<noteq> None"
  using reachable_valid_index [OF assms] by (simp add: valid_index_def lookup_track_def)

lemma skipTo_index:
  assumes "valid_index s" "0 \<le> idx" "idx < int (length (playlist s))"
  shows "completes (skipTo idx s)" "index (state_of (skipTo idx s)) = idx"
proof -
  have "lookup_track (playlist (stop_current s)) idx = Some (playlist (stop_current s) ! nat idx)"
    using assms(2,3) quiet_facts(1) [OF quiet_stop_current, of s] by (simp add: lookup_track_def)
  then show "completes (skipTo idx s)" "index (state_of (skipTo idx s)) = idx"
    using play_effect(1,2) [of "stop_current s" idx _ "Some idx"]
    by (simp_all add: skipTo_play [OF assms(1)])
qed

theorem index_always_valid_witness:
  "the_playlist \<noteq> [] \<and> reachable the_playlist (state_of (exec ClickPrev (example_playing 800)))
   \<and> index (state_of (exec ClickPrev (example_playing 800))) = 19
   \<and> (0::int) \<le> 19 \<and> 19 < int (length (playlist (state_of (exec ClickPrev (example_playing 800)))))"
proof -
  have r: "reachable the_playlist (state_of (exec ClickPrev (example_playing 800)))"
    by (rule reachable.after [OF reachable_example_playing])
  have l: "length (playlist (example_playing 800)) = 20"
    using reachable_handles_ok [OF reachable_example_playing no_handles_the_playlist, of 800]
    by (simp add: handles_ok_def length_the_playlist)
  have "skip ''prev'' (example_playing 800) = skipTo 19 (example_playing 800)"
    by (simp add: skip_def example_playing_facts l)
  then have "index (state_of (exec ClickPrev (example_playing 800))) = 19"
    using skipTo_index(2) [OF example_playing_facts(1), of 19 800] by (simp add: l)
  then show ?thesis
    using index_always_valid [OF r the_playlist_nonempty] r by (simp add: the_playlist_nonempty)
qed

section \<open>The handles after skipTo\<close>












section \<open>Handles are created once\<close>

text \<open>
  C7. In every reachable state of a page started on a playlist without handles, the
  number of handles constructed for a track is 1 if the track has a handle and 0 if it
  has none, and the handles are numbered below the count of constructions, so a newly
  constructed handle differs from all of them. Every event, and every call of \<open>play\<close>,
  \<open>skipTo\<close> and \<open>skip\<close>, leaves each existing handle in its track under the same
  number. \<open>play\<close> constructs no handle for a track that has one, and constructs
  exactly one for a target track that has none.
\<close>

theorem handle_created_once:
  assumes "reachable pl s" "no_handles pl"
  shows "constructions s i = (if handle_at s i = None then 0 else 1)
       \<and> (\<forall>h. handle_at s i = Some h \<longrightarrow> hid h < howl_count s)
       \<and> keeps_handles s (state_of (exec e s))
       \<and> keeps_handles s (state_of (play arg s))
       \<and> keeps_handles s (state_of (skipTo idx s))
       \<and> keeps_handles s (state_of (skip d s))
       \<and> (handle_at s i \<noteq> None \<longrightarrow>
            constructions (state_of (play arg s)) i = constructions s i)
       \<and> (handle_at s i = None \<and> completes (play arg s)
            \<and> int i = (case arg of Some n \<Rightarrow> n | None \<Rightarrow> index s) \<longrightarrow>
            constructions (state_of (play arg s)) i = 1
            \<and> handle_at (state_of (play arg s)) i = Some (howl_play (new_howl (howl_count s))))"
proof -
  note ok = reachable_handles_ok [OF assms]
  have 1: "constructions s i = (if handle_at s i = None then 0 else 1)"
    and 2: "\<forall>h. handle_at s i = Some h \<longrightarrow> hid h < howl_count s"
    using ok by (simp_all add: handles_ok_def)
  let ?t = "case arg of Some n \<Rightarrow> n | None \<Rightarrow> index s"
  have 3: "constructions (state_of (play arg s)) i = constructions s i" if "handle_at s i \<noteq> None"
  proof (cases "lookup_track (playlist s) ?t")
    case None
    then show ?thesis by (simp add: play_raises)
  next
    case (Some data)
    have "handle_at s (nat ?t) = howl data" using lookup_SomeD [OF Some] by (simp add: handle_at_def)
    then show ?thesis using that by (auto simp: play_constructions [OF Some refl])
  qed
  have 4: "constructions (state_of (play arg s)) i = 1
            \<and> handle_at (state_of (play arg s)) i = Some (howl_play (new_howl (howl_count s)))"
    if "handle_at s i = None \<and> completes (play arg s) \<and> int i = ?t"
  proof (cases "lookup_track (playlist s) ?t")
    case None
    then show ?thesis using that by (simp add: play_raises)
  next
    case (Some data)
    from that have "?t = int i" by simp
    then have n: "nat ?t = i" by simp
    have "handle_at s (nat ?t) = howl data" using lookup_SomeD [OF Some] by (simp add: handle_at_def)
    then have "howl data = None" using that n by simp
    then show ?thesis
      using 1 that n
      by (simp add: play_constructions [OF Some refl] play_handle_at [OF Some refl] played_def)
  qed
  show ?thesis
    using 1 2 3 4 exec_keeps_handles play_keeps_handles skipTo_keeps_handles skip_keeps_handles
    by blast
qed

theorem handle_created_once_witness:
  "reachable the_playlist (example_loading 800) \<and> no_handles the_playlist
   \<and> handle_at (example_loading 800) 0 = Some (howl_play (new_howl 0))
   \<and> constructions (example_loading 800) 0 = 1
   \<and> (\<exists>h'. handle_at (state_of (exec ClickNext (example_loading 800))) 0 = Some h'
          \<and> hid h' = hid (howl_play (new_howl 0)))
   \<and> constructions (state_of (play (Some 0) (example_loading 800))) 0 = 1
   \<and> handle_at (example_loading 800) 3 = None
   \<and> completes (play (Some 3) (example_loading 800))
   \<and> constructions (state_of (play (Some 3) (example_loading 800))) 3 = 1
   \<and> handle_at (state_of (play (Some 3) (example_loading 800))) 3 = Some (howl_play (new_howl 1))"
proof -
  note r = reachable_example_loading [of 800] and n = no_handles_the_playlist
  have h0: "handle_at (example_loading 800) 0 = Some (howl_play (new_howl 0))"
    and h3: "handle_at (example_loading 800) 3 = None"
    by (simp_all add: example_loading_facts)
  have c: "completes (play (Some 3) (example_loading 800))"
    using play_effect(1) [of "example_loading 800" 3 _ "Some 3"]
    by (simp add: lookup_track_def example_loading_facts)
  have k: "\<exists>h'. handle_at (state_of (exec ClickNext (example_loading 800))) 0 = Some h'
          \<and> hid h' = hid (howl_play (new_howl 0))"
    using handle_created_once [OF r n, of 0 ClickNext "Some 0" 5 "''prev''"] h0
    unfolding keeps_handles_def by blast
  show ?thesis
    using handle_created_once [OF r n, of 0 ClickNext "Some 0" 5 "''prev''"]
      handle_created_once [OF r n, of 3 ClickNext "Some 3" 5 "''prev''"] k c
    by (simp add: r n h0 h3 example_loading_facts)
qed

section \<open>Handles report no progress without a duration\<close>

lemma reports_ok_cong:
  "hposition h' = hposition h \<Longrightarrow> hduration h' = hduration h \<Longrightarrow> reports_ok h' = reports_ok h"
  by (simp add: reports_ok_def)

lemma keeps_reports_ok:
  assumes "keeps_reports s s'" "all_reports_ok s"
  shows "all_reports_ok s'"
  unfolding all_reports_ok_def
proof (intro allI impI)
  fix j h' assume a: "handle_at s' j = Some h'"
  from assms(1) a have "reports_ok h'
        \<or> (\<exists>h. handle_at s j = Some h \<and> hposition h' = hposition h \<and> hduration h' = hduration h)"
    unfolding keeps_reports_def by blast
  then show "reports_ok h'"
  proof
    assume "reports_ok h'" then show ?thesis .
  next
    assume "\<exists>h. handle_at s j = Some h \<and> hposition h' = hposition h \<and> hduration h' = hduration h"
    then obtain h where h: "handle_at s j = Some h" "hposition h' = hposition h"
      "hduration h' = hduration h" by blast
    have "reports_ok h" using assms(2) h(1) unfolding all_reports_ok_def by blast
    then show ?thesis using reports_ok_cong [OF h(2,3)] by simp
  qed
qed

lemma keeps_reports_refl: "keeps_reports s s"
  by (simp add: keeps_reports_def)

lemma keeps_reports_trans:
  assumes "keeps_reports s s'" "keeps_reports s' s''"
  shows "keeps_reports s s''"
  unfolding keeps_reports_def
proof (intro allI impI)
  fix j h'' assume a: "handle_at s'' j = Some h''"
  from assms(2) a have "reports_ok h''
        \<or> (\<exists>h. handle_at s' j = Some h \<and> hposition h'' = hposition h \<and> hduration h'' = hduration h)"
    unfolding keeps_reports_def by blast
  then show "reports_ok h''
        \<or> (\<exists>h. handle_at s j = Some h \<and> hposition h'' = hposition h \<and> hduration h'' = hduration h)"
  proof
    assume "reports_ok h''" then show ?thesis by simp
  next
    assume "\<exists>h. handle_at s' j = Some h \<and> hposition h'' = hposition h \<and> hduration h'' = hduration h"
    then obtain h' where h': "handle_at s' j = Some h'" "hposition h'' = hposition h'"
      "hduration h'' = hduration h'" by blast
    from assms(1) h'(1) have "reports_ok h'
        \<or> (\<exists>h. handle_at s j = Some h \<and> hposition h' = hposition h \<and> hduration h' = hduration h)"
      unfolding keeps_reports_def by blast
    then show ?thesis using h'(2,3) reports_ok_cong [OF h'(2,3)] by auto
  qed
qed

lemma keeps_reports_same: "playlist s' = playlist s \<Longrightarrow> keeps_reports s s'"
  by (simp add: keeps_reports_def handle_at_def)

lemma keeps_reports_pause: "keeps_reports s (state_of (pause s))"
  by (auto simp: pause_def Let_def keeps_reports_def handle_at_def howl_pause_def
        nth_list_update lookup_track_def split: option.splits if_splits)

lemma keeps_reports_seek: "keeps_reports s (state_of (seek per s))"
  by (auto simp: seek_def Let_def keeps_reports_def handle_at_def howl_seek_def reports_ok_def
        nth_list_update lookup_track_def split: option.splits if_splits)

lemma keeps_reports_step: "keeps_reports s (state_of (step s))"
  by (auto simp: step_def Let_def split: option.splits if_splits intro!: keeps_reports_same)

lemma keeps_reports_stop_current: "keeps_reports s (stop_current s)"
  by (auto simp: stop_current_def current_handle_def keeps_reports_def handle_at_def
        howl_stop_def nth_list_update lookup_track_def split: option.splits if_splits)

lemma keeps_reports_lib_ended: "keeps_reports s (lib_ended i s)"
  by (auto simp: lib_ended_def update_handle_def keeps_reports_def handle_at_def
        nth_list_update split: option.splits if_splits)

lemma keeps_reports_play: "keeps_reports s (state_of (play arg s))"
proof (cases "lookup_track (playlist s) (case arg of Some n \<Rightarrow> n | None \<Rightarrow> index s)")
  case None
  then show ?thesis by (simp add: play_raises keeps_reports_refl)
next
  case (Some data)
  let ?t = "case arg of Some n \<Rightarrow> n | None \<Rightarrow> index s"
  note h = play_handle_at [OF Some refl] and g = lookup_SomeD [OF Some]
  have d: "handle_at s (nat ?t) = howl data" using g by (simp add: handle_at_def)
  have p: "reports_ok (played k data)
        \<or> (\<exists>h0. howl data = Some h0 \<and> hposition (played k data) = hposition h0
              \<and> hduration (played k data) = hduration h0)" for k
    by (cases "howl data") (simp_all add: played_def howl_play_def new_howl_def reports_ok_def)
  show ?thesis
    unfolding keeps_reports_def using d p by (auto simp: h)
qed

lemma keeps_reports_skipTo: "keeps_reports s (state_of (skipTo idx s))"
proof (cases "valid_index s")
  case False
  then show ?thesis by (simp add: skipTo_raises keeps_reports_refl)
next
  case True
  show ?thesis
    using keeps_reports_trans [OF keeps_reports_stop_current keeps_reports_play]
    by (simp add: skipTo_play [OF True])
qed

lemma keeps_reports_skip: "keeps_reports s (state_of (skip d s))"
  using skip_is_skipTo [of d s] keeps_reports_skipTo [of s] by auto

text \<open>
  The script itself never makes a handle report progress without a duration: every event
  other than the library's own loading and progress keeps the reports.
\<close>

lemma exec_keeps_reports:
  assumes "\<And>i d. e \<noteq> LibLoaded i d" "\<And>i p. e \<noteq> LibProgress i p"
  shows "keeps_reports s (state_of (exec e s))"
proof (cases e)
  case OnEnd
  let ?s0 = "s\<lparr>wave_display := ''none'', bar_display := ''block''\<rparr>"
  have "keeps_reports s ?s0" by (rule keeps_reports_same) simp
  then show ?thesis
    using OnEnd keeps_reports_trans [OF _ keeps_reports_skip] by (simp add: on_end_def)
next
  case (LibLoaded i d) then show ?thesis using assms(1) by simp
next
  case (LibProgress i p) then show ?thesis using assms(2) by simp
qed (simp_all add: keeps_reports_play keeps_reports_pause keeps_reports_skip
      keeps_reports_skipTo keeps_reports_refl keeps_reports_seek keeps_reports_step
      keeps_reports_lib_ended
      keeps_reports_same volume_def Let_def on_play_def on_load_def on_pause_def on_stop_def
      on_seek_def split: option.splits)

lemma lib_keeps_reports:
  "d \<noteq> 0 \<Longrightarrow> keeps_reports s (lib_loaded i d s)"
  "(\<forall>h. handle_at s i = Some h \<longrightarrow> hduration h = 0 \<longrightarrow> p = 0)
     \<Longrightarrow> keeps_reports s (lib_progress i p s)"
  by (auto simp: lib_loaded_def lib_progress_def update_handle_def keeps_reports_def
        handle_at_def reports_ok_def nth_list_update split: option.splits if_splits)

end
